theory Spec2Isabelle
  imports Main "HOL-Library.Sublist"
begin

section \<open>Configuration\<close>

text \<open>
  The repository holds two variants of \<^verbatim>\<open>main.go\<close>: the first parses its arguments with
  kingpin, the second with the standard \<^verbatim>\<open>flag\<close> package. Both declare the same
  \<^verbatim>\<open>CommandLine\<close> struct and the same \<^verbatim>\<open>Options\<close> interface over it. Definitions that
  differ between the two carry the suffix \<open>_kingpin\<close> or \<open>_flag\<close>.

  A Go string is a sequence of bytes, here a \<^typ>\<open>string\<close>. The field \<^verbatim>\<open>xtrn *string\<close> is a
  pointer that may be nil, here an option. \<^verbatim>\<open>port\<close> is a \<^verbatim>\<open>uint64\<close>; \<^verbatim>\<open>timeout\<close> is a
  \<^verbatim>\<open>time.Duration\<close>, a signed count of time units.
\<close>

type_synonym bytes = string

record CommandLine =
  host :: string
  port :: nat
  name :: string
  tag :: string
  xtrn :: "string option"
  timeout :: int

abbreviation NUL :: char where
  "NUL \<equiv> CHR 0x00"

section \<open>The rlogin handshake\<close>

text \<open>
  First variant (\<^verbatim>\<open>ProcessData\<close>, kingpin): the local user name is the placeholder
  \<^verbatim>\<open>"local_username"\<close>; the format string is \<^verbatim>\<open>"\x00%s\x00[%s]%s\x00"\<close>; the xtrn field is
  appended when the pointer is not nil and the string is not empty, and nothing is appended
  otherwise.
\<close>

definition handshake_kingpin :: "CommandLine \<Rightarrow> bytes" where
  "handshake_kingpin options =
     (let localUsername = ''local_username'';
          remoteUsername = name options;
          tag' = tag options;
          handshake = [NUL] @ localUsername @ [NUL] @ ''['' @ tag' @ '']'' @ remoteUsername @ [NUL]
      in case xtrn options of
           None \<Rightarrow> handshake
         | Some code \<Rightarrow>
             if code \<noteq> [] then handshake @ ''xtrn='' @ code @ [NUL] else handshake)"

text \<open>
  Second variant (\<^verbatim>\<open>ProcessData\<close>, flag): the local user name is the empty string, and the
  \<^verbatim>\<open>else\<close> branch appends one more NUL for the empty terminal type.
\<close>

definition handshake_flag :: "CommandLine \<Rightarrow> bytes" where
  "handshake_flag options =
     (let localUsername = [];
          remoteUsername = name options;
          tag' = tag options;
          handshake = [NUL] @ localUsername @ [NUL] @ ''['' @ tag' @ '']'' @ remoteUsername @ [NUL]
      in case xtrn options of
           None \<Rightarrow> handshake @ [NUL]
         | Some code \<Rightarrow>
             if code \<noteq> [] then handshake @ ''xtrn='' @ code @ [NUL] else handshake @ [NUL])"

text \<open>
  The receiving side reads the payload as NUL-terminated fields. \<open>nul_fields\<close> cuts a payload
  at every NUL; the piece after the last NUL is the last element (empty when the payload ends
  with NUL). A payload carries an xtrn field when one of its fields starts with \<^verbatim>\<open>xtrn=\<close>.
\<close>

fun nul_fields :: "bytes \<Rightarrow> bytes list" where
  "nul_fields [] = [[]]"
| "nul_fields (c # cs) =
     (if c = NUL then [] # nul_fields cs
      else (case nul_fields cs of [] \<Rightarrow> [[c]] | f # fs \<Rightarrow> (c # f) # fs))"

definition has_xtrn_field :: "bytes \<Rightarrow> bool" where
  "has_xtrn_field payload = list_ex (\<lambda>f. take 5 f = ''xtrn='') (nul_fields payload)"

text \<open>Scenario A of the specification: name \<^verbatim>\<open>bob\<close>, tag \<^verbatim>\<open>ABC\<close>, door code empty.\<close>

definition scenarioA :: "string option \<Rightarrow> CommandLine" where
  "scenarioA code =
     \<lparr>host = ''example.com'', port = 2513, name = ''bob'', tag = ''ABC'', xtrn = code,
      timeout = 1000\<rparr>"

section \<open>What the environment decides\<close>

text \<open>
  A call of \<^verbatim>\<open>Read(buffer)\<close> returns a count \<open>n\<close> and an error, having put \<open>n\<close> bytes at the
  start of the buffer: some bytes and no error (\<open>ReadData\<close>), no bytes and \<^verbatim>\<open>io.EOF\<close>
  (\<open>ReadEOF\<close>), no bytes and another error (\<open>ReadError\<close>), and, as an \<^verbatim>\<open>io.Reader\<close> may,
  some bytes together with \<^verbatim>\<open>io.EOF\<close> (\<open>ReadDataEOF\<close>) or with another error
  (\<open>ReadDataError\<close>). A call of \<^verbatim>\<open>connection.Write\<close> either takes all the bytes, or fails
  after taking the first \<open>n\<close> of them.
\<close>

datatype read_result =
    ReadData bytes
  | ReadEOF
  | ReadError
  | ReadDataEOF bytes
  | ReadDataError bytes

datatype write_result = WriteOk | WriteError nat

text \<open>
  Everything the three goroutines do to the outside is an action. A function of the source
  is modelled by the list of actions it performs, in order. \<open>LogFatal\<close> is \<^verbatim>\<open>log.Fatalf\<close>:
  it prints the message and calls \<^verbatim>\<open>os.Exit(1)\<close>, so the process ends there and no deferred
  function runs.
\<close>

datatype action =
    ConnWrite bytes write_result
  | ConnClose
  | OutputWrite bytes
  | SendRequest bytes
  | SendDone
  | SendResponse bytes
  | SendDisconnected
  | CloseReceived
  | CloseDisconnected
  | LogPrint string
  | LogFatal string

section \<open>The pumps\<close>

text \<open>
  \<^verbatim>\<open>readInputData\<close> (the same in both variants) loops over \<^verbatim>\<open>reader.Read(buffer)\<close>: data is
  sent on \<^verbatim>\<open>toSent\<close>; \<^verbatim>\<open>io.EOF\<close> sends \<^verbatim>\<open>true\<close> on \<^verbatim>\<open>doneChannel\<close> and returns; any other error
  is \<^verbatim>\<open>log.Fatalf\<close>. The error is looked at first, so the bytes that come with an error
  are not sent. The argument lists the results of the successive reads; when it is used
  up the pump is blocked in a read. The channels are unbuffered, so a send is completed
  only when the event loop receives it. What is sent is the slice \<^verbatim>\<open>buffer[:n]\<close> of the
  pump's one buffer; \<open>SendRequest\<close> carries the bytes of that slice at the time of the
  send.
\<close>

fun readInputData :: "read_result list \<Rightarrow> action list" where
  "readInputData [] = []"
| "readInputData (ReadData b # rs) = SendRequest b # readInputData rs"
| "readInputData (ReadEOF # rs) = [SendDone]"
| "readInputData (ReadError # rs) = [LogFatal ''Error reading input data'']"
| "readInputData (ReadDataEOF b # rs) = [SendDone]"
| "readInputData (ReadDataError b # rs) = [LogFatal ''Error reading input data'']"

text \<open>
  \<^verbatim>\<open>readServerData\<close> of the first variant defers \<^verbatim>\<open>close(received)\<close> and then
  \<^verbatim>\<open>close(serverDisconnected)\<close>, which run in the opposite order at the return.
\<close>

fun readServerData_kingpin :: "read_result list \<Rightarrow> action list" where
  "readServerData_kingpin [] = []"
| "readServerData_kingpin (ReadData b # rs) = SendResponse b # readServerData_kingpin rs"
| "readServerData_kingpin (ReadEOF # rs) =
     [LogPrint ''Server closed the connection.'', SendDisconnected,
      CloseDisconnected, CloseReceived]"
| "readServerData_kingpin (ReadError # rs) =
     [LogPrint ''Error occurred while reading from server'', SendDisconnected,
      CloseDisconnected, CloseReceived]"
| "readServerData_kingpin (ReadDataEOF b # rs) =
     [LogPrint ''Server closed the connection.'', SendDisconnected,
      CloseDisconnected, CloseReceived]"
| "readServerData_kingpin (ReadDataError b # rs) =
     [LogPrint ''Error occurred while reading from server'', SendDisconnected,
      CloseDisconnected, CloseReceived]"

text \<open>\<^verbatim>\<open>readServerData\<close> of the second variant closes \<^verbatim>\<open>received\<close> only.\<close>

fun readServerData_flag :: "read_result list \<Rightarrow> action list" where
  "readServerData_flag [] = []"
| "readServerData_flag (ReadData b # rs) = SendResponse b # readServerData_flag rs"
| "readServerData_flag (ReadEOF # rs) =
     [LogPrint ''Server closed the connection.'', SendDisconnected, CloseReceived]"
| "readServerData_flag (ReadError # rs) =
     [LogPrint ''Error occurred while reading from server'', SendDisconnected, CloseReceived]"
| "readServerData_flag (ReadDataEOF b # rs) =
     [LogPrint ''Server closed the connection.'', SendDisconnected, CloseReceived]"
| "readServerData_flag (ReadDataError b # rs) =
     [LogPrint ''Error occurred while reading from server'', SendDisconnected, CloseReceived]"

section \<open>The event loop\<close>

text \<open>
  One round of the \<^verbatim>\<open>select\<close> in \<^verbatim>\<open>ProcessData\<close> handles one event: a request received
  from \<^verbatim>\<open>requestDataChannel\<close> (with the result of the \<^verbatim>\<open>connection.Write\<close> it leads to), the
  value of \<^verbatim>\<open>doneChannel\<close>, a response received from \<^verbatim>\<open>responseDataChannel\<close>, a tick of
  \<^verbatim>\<open>afterEOFResponseTicker\<close>, or the value of the disconnect channel. \<open>InputFatal\<close> is
  not a case of the \<^verbatim>\<open>select\<close>: it is the moment at which \<^verbatim>\<open>readInputData\<close> calls
  \<^verbatim>\<open>log.Fatalf\<close> and the process, with the loop in it, ends.

  A request or a response received from a channel is a slice of the sending pump's buffer.
  The bytes of a \<open>Request\<close> are those that \<^verbatim>\<open>connection.Write\<close> finds in the slice when it
  runs, the bytes of a \<open>Response\<close> those that \<^verbatim>\<open>outputData.Write\<close> finds.

  A schedule is the list of events in the order in which the loop handles them, each with
  the time at which it is handled. Which of several ready cases a \<^verbatim>\<open>select\<close> takes is
  not determined; the schedule records the choice.
\<close>

datatype event =
    Request bytes write_result
  | Done
  | Response bytes
  | Tick
  | Disconnected
  | InputFatal

datatype reason =
    WriteFailed
  | InactivityTimeout
  | ServerDisconnect
  | StoppingWrites
  | StoppingReads

text \<open>
  \<open>Running\<close>: the loop waits in its \<^verbatim>\<open>select\<close>. \<open>Returned\<close>: \<^verbatim>\<open>ProcessData\<close> executed a
  \<^verbatim>\<open>return\<close>. \<open>Exited\<close>: \<^verbatim>\<open>log.Fatalf\<close> ended the process. \<open>Panicked\<close>:
  \<^verbatim>\<open>time.NewTicker\<close> panicked (it does for a duration that is not positive).
\<close>

datatype status = Running | Returned reason | Exited | Panicked

text \<open>
  The local variables of \<^verbatim>\<open>ProcessData\<close>. \<open>closing\<close> exists in the second variant only.
  \<open>next_tick\<close> is the time at which the ticker held by \<^verbatim>\<open>afterEOFResponseTicker\<close> fires
  next: a ticker made at time \<open>t\<close> with period \<open>d\<close> fires at \<open>t + d\<close>, \<open>t + 2 * d\<close>, ...
  \<open>now\<close> is the time of the last event handled. \<open>trace\<close> lists the actions of
  \<^verbatim>\<open>ProcessData\<close> so far.
\<close>

record relay =
  afterEOFMode :: bool
  somethingRead :: bool
  closing :: bool
  now :: int
  next_tick :: int
  trace :: "action list"

record TelnetClient =
  destination :: string
  responseTimeout :: int

fun select_kingpin :: "int \<Rightarrow> relay \<Rightarrow> int \<times> event \<Rightarrow> status \<times> relay" where
  "select_kingpin d s (t, Request request w) =
     (case w of
        WriteError n \<Rightarrow>
          (Returned WriteFailed,
           s\<lparr>now := t,
             trace := trace s @ [ConnWrite request w,
                                 LogPrint ''Error occurred while writing to TCP socket'']\<rparr>)
      | WriteOk \<Rightarrow> (Running, s\<lparr>now := t, trace := trace s @ [ConnWrite request w]\<rparr>))"
| "select_kingpin d s (t, Done) = (Running, s\<lparr>now := t, afterEOFMode := True\<rparr>)"
| "select_kingpin d s (t, Response response) =
     (Running,
      s\<lparr>now := t,
        trace := trace s @ [OutputWrite response],
        somethingRead := True,
        next_tick := (if afterEOFMode s then t + d else next_tick s)\<rparr>)"
| "select_kingpin d s (t, Tick) =
     (if afterEOFMode s \<and> \<not> somethingRead s
      then (Returned InactivityTimeout,
            s\<lparr>now := t,
              trace := trace s @ [LogPrint ''Connection timeout with no response received.'']\<rparr>)
      else (Running, s\<lparr>now := t, next_tick := next_tick s + d\<rparr>))"
| "select_kingpin d s (t, Disconnected) =
     (Returned ServerDisconnect,
      s\<lparr>now := t, trace := trace s @ [LogPrint ''Server disconnected.'']\<rparr>)"
| "select_kingpin d s (t, InputFatal) = (Exited, s\<lparr>now := t\<rparr>)"

fun select_flag :: "int \<Rightarrow> relay \<Rightarrow> int \<times> event \<Rightarrow> status \<times> relay" where
  "select_flag d s (t, Request request w) =
     (if closing s
      then (Returned StoppingWrites,
            s\<lparr>now := t, trace := trace s @ [LogPrint ''Connection closing; stopping writes.'']\<rparr>)
      else (case w of
        WriteError n \<Rightarrow>
          (Returned WriteFailed,
           s\<lparr>now := t,
             trace := trace s @ [ConnWrite request w,
                                 LogPrint ''Error occurred while writing to TCP socket'']\<rparr>)
      | WriteOk \<Rightarrow> (Running, s\<lparr>now := t, trace := trace s @ [ConnWrite request w]\<rparr>)))"
| "select_flag d s (t, Done) = (Running, s\<lparr>now := t, afterEOFMode := True, closing := True\<rparr>)"
| "select_flag d s (t, Response response) =
     (if closing s
      then (Returned StoppingReads,
            s\<lparr>now := t, trace := trace s @ [LogPrint ''Connection closing; stopping reads.'']\<rparr>)
      else (Running,
            s\<lparr>now := t,
              trace := trace s @ [OutputWrite response],
              somethingRead := True,
              next_tick := (if afterEOFMode s then t + d else next_tick s)\<rparr>))"
| "select_flag d s (t, Tick) =
     (if afterEOFMode s \<and> \<not> somethingRead s
      then (Returned InactivityTimeout,
            s\<lparr>now := t,
              trace := trace s @ [LogPrint ''Connection timeout with no response received.'']\<rparr>)
      else (Running, s\<lparr>now := t, next_tick := next_tick s + d\<rparr>))"
| "select_flag d s (t, Disconnected) =
     (Returned ServerDisconnect,
      s\<lparr>now := t, trace := trace s @ [LogPrint ''Server disconnected. Exiting.'']\<rparr>)"
| "select_flag d s (t, InputFatal) = (Exited, s\<lparr>now := t\<rparr>)"

text \<open>The \<^verbatim>\<open>for\<close> around the \<^verbatim>\<open>select\<close>: it goes on until a round does not leave it running.\<close>

fun loop ::
  "(relay \<Rightarrow> int \<times> event \<Rightarrow> status \<times> relay) \<Rightarrow> relay \<Rightarrow> (int \<times> event) list \<Rightarrow> status \<times> relay"
where
  "loop step s [] = (Running, s)"
| "loop step s (e # es) =
     (let (st, s') = step s e in if st = Running then loop step s' es else (st, s'))"

text \<open>
  The state in which the loop is entered: the handshake has been written, the ticker has
  just been made, at time \<open>t0\<close>.
\<close>

definition start :: "action list \<Rightarrow> int \<Rightarrow> int \<Rightarrow> relay" where
  "start tr t0 d =
     \<lparr>afterEOFMode = False, somethingRead = False, closing = False,
      now = t0, next_tick = t0 + d, trace = tr\<rparr>"

text \<open>
  \<^verbatim>\<open>ProcessData\<close>, from the dial to the return. The deferred function (\<^verbatim>\<open>connection.Close()\<close>
  and the log line) is registered after a successful dial; it runs when \<^verbatim>\<open>ProcessData\<close>
  returns or panics, and does not run when \<^verbatim>\<open>log.Fatalf\<close> ends the process. The two
  variants of \<^verbatim>\<open>ProcessData\<close> differ in the handshake and in the body of the \<^verbatim>\<open>select\<close> only,
  which are the first two arguments here. What the environment decides is given by the
  other arguments: whether the dial succeeds, the result of writing the handshake, the
  time \<open>t0\<close> at which the ticker is made, and the schedule. The result is the status and the
  state with the whole trace.
\<close>

definition unwind :: "status \<times> relay \<Rightarrow> status \<times> relay" where
  "unwind r =
     (case r of
        (Returned why, s) \<Rightarrow>
          (Returned why, s\<lparr>trace := trace s @ [ConnClose, LogPrint ''Connection closed.'']\<rparr>)
      | (Panicked, s) \<Rightarrow>
          (Panicked, s\<lparr>trace := trace s @ [ConnClose, LogPrint ''Connection closed.'']\<rparr>)
      | (st, s) \<Rightarrow> (st, s))"

definition ProcessData ::
  "(CommandLine \<Rightarrow> bytes) \<Rightarrow> (int \<Rightarrow> relay \<Rightarrow> int \<times> event \<Rightarrow> status \<times> relay) \<Rightarrow>
   TelnetClient \<Rightarrow> CommandLine \<Rightarrow> bool \<Rightarrow> write_result \<Rightarrow> int \<Rightarrow> (int \<times> event) list \<Rightarrow>
   status \<times> relay"
where
  "ProcessData encode select t options dial_ok handshake_write t0 schedule =
     (let d = responseTimeout t; handshake = encode options in
      if \<not> dial_ok
      then (Exited, start [LogFatal ''Error occurred while connecting to address''] t0 d)
      else unwind
        (case handshake_write of
           WriteError n \<Rightarrow>
             (Exited, start [ConnWrite handshake handshake_write,
                             LogFatal ''Failed to send rlogin handshake''] t0 d)
         | WriteOk \<Rightarrow>
             if d \<le> 0 then (Panicked, start [ConnWrite handshake WriteOk] t0 d)
             else loop (select d) (start [ConnWrite handshake WriteOk] t0 d) schedule))"

definition ProcessData_kingpin ::
  "TelnetClient \<Rightarrow> CommandLine \<Rightarrow> bool \<Rightarrow> write_result \<Rightarrow> int \<Rightarrow> (int \<times> event) list \<Rightarrow>
   status \<times> relay"
where
  "ProcessData_kingpin = ProcessData handshake_kingpin select_kingpin"

definition ProcessData_flag ::
  "TelnetClient \<Rightarrow> CommandLine \<Rightarrow> bool \<Rightarrow> write_result \<Rightarrow> int \<Rightarrow> (int \<times> event) list \<Rightarrow>
   status \<times> relay"
where
  "ProcessData_flag = ProcessData handshake_flag select_flag"

section \<open>Schedules that can happen\<close>

text \<open>
  What the loop receives from the input pump is what the pump sends, in the pump's order.
  \<open>input_side\<close> gives, for an event, the action of \<^verbatim>\<open>readInputData\<close> that it completes.
\<close>

fun input_side :: "int \<times> event \<Rightarrow> action list" where
  "input_side (t, Request b w) = [SendRequest b]"
| "input_side (t, Done) = [SendDone]"
| "input_side (t, InputFatal) = [LogFatal ''Error reading input data'']"
| "input_side (t, e) = []"

text \<open>
  The pump makes one buffer of \<^verbatim>\<open>defaultBufferSize\<close> bytes, reads into it every time and sends
  the slice \<^verbatim>\<open>buffer[:n]\<close>, which shares the buffer's memory. As soon as the loop has received
  the slice the pump goes on to its next read, while the loop goes on to
  \<^verbatim>\<open>connection.Write(request)\<close>: the write finds in the slice either the bytes that were
  sent, or, when the next read has put its bytes into the buffer first, the start of the
  refilled buffer. (The pump then waits in its next send until the loop is back in its
  \<^verbatim>\<open>select\<close>, so no more than one read comes between.) \<open>refill\<close> is a read that puts
  the bytes \<open>b\<close> at the start of the buffer; a refill is taken as a whole.
\<close>

definition defaultBufferSize :: nat where
  "defaultBufferSize = 4096"

fun read_bytes :: "read_result \<Rightarrow> bytes" where
  "read_bytes (ReadData b) = b"
| "read_bytes ReadEOF = []"
| "read_bytes ReadError = []"
| "read_bytes (ReadDataEOF b) = b"
| "read_bytes (ReadDataError b) = b"

definition refill :: "bytes \<Rightarrow> bytes \<Rightarrow> bytes" where
  "refill buffer b = b @ drop (length b) buffer"

text \<open>
  \<open>offered buffer reads schedule\<close>: with the buffer as it is before the pump's next read
  and with \<open>reads\<close> the results of the reads to come, the input side of the schedule can
  happen. A request needs a read that returns data and no error, and its bytes are what
  the write can find in the slice. \<open>Done\<close> needs a read that returns \<^verbatim>\<open>io.EOF\<close>, \<open>InputFatal\<close>
  one that returns another error; after either the pump sends nothing more.
\<close>

fun offered :: "bytes \<Rightarrow> read_result list \<Rightarrow> (int \<times> event) list \<Rightarrow> bool" where
  "offered buffer reads [] = True"
| "offered buffer reads ((t, Request b w) # es) =
     (case reads of
        ReadData c # reads' \<Rightarrow>
          (let buffer' = refill buffer c in
           (b = take (length c) buffer' \<or>
            (case reads' of
               [] \<Rightarrow> False
             | r # reads'' \<Rightarrow> b = take (length c) (refill buffer' (read_bytes r)))) \<and>
           offered buffer' reads' es)
      | _ \<Rightarrow> False)"
| "offered buffer reads ((t, Done) # es) =
     (case reads of
        ReadEOF # reads' \<Rightarrow> offered buffer [] es
      | ReadDataEOF c # reads' \<Rightarrow> offered (refill buffer c) [] es
      | _ \<Rightarrow> False)"
| "offered buffer reads ((t, InputFatal) # es) =
     (case reads of
        ReadError # reads' \<Rightarrow> offered buffer [] es
      | ReadDataError c # reads' \<Rightarrow> offered (refill buffer c) [] es
      | _ \<Rightarrow> False)"
| "offered buffer reads ((t, e) # es) = offered buffer reads es"

definition input_offered :: "read_result list \<Rightarrow> (int \<times> event) list \<Rightarrow> bool" where
  "input_offered reads schedule = offered (replicate defaultBufferSize NUL) reads schedule"

text \<open>
  Timing. The handlers take no time and the loop is never late: an event is handled at the
  time it happens, a tick exactly when the ticker fires, and nothing is handled after a
  tick is due and before that tick is handled. Time does not go backwards, and nothing
  follows the event that ends the loop.
\<close>

fun timely ::
  "(relay \<Rightarrow> int \<times> event \<Rightarrow> status \<times> relay) \<Rightarrow> relay \<Rightarrow> (int \<times> event) list \<Rightarrow> bool"
where
  "timely step s [] = True"
| "timely step s ((t, e) # es) =
     (now s \<le> t \<and> t \<le> next_tick s \<and> (if e = Tick then t = next_tick s else True) \<and>
      (let (st, s') = step s (t, e) in if st = Running then timely step s' es else es = []))"

section \<open>What a trace amounts to\<close>

fun written :: "bytes \<Rightarrow> write_result \<Rightarrow> bytes" where
  "written b WriteOk = b"
| "written b (WriteError n) = take n b"

fun conn_bytes :: "action \<Rightarrow> bytes" where
  "conn_bytes (ConnWrite b w) = written b w"
| "conn_bytes a = []"

fun output_bytes :: "action \<Rightarrow> bytes" where
  "output_bytes (OutputWrite b) = b"
| "output_bytes a = []"

text \<open>The bytes that went to the connection, and the bytes that went to the local output.\<close>

definition wire :: "action list \<Rightarrow> bytes" where
  "wire tr = concat (map conn_bytes tr)"

definition printed :: "action list \<Rightarrow> bytes" where
  "printed tr = concat (map output_bytes tr)"

text \<open>How often the connection was closed.\<close>

definition closes :: "action list \<Rightarrow> nat" where
  "closes tr = length (filter (\<lambda>a. a = ConnClose) tr)"

text \<open>The bytes that \<^verbatim>\<open>readInputData\<close> has read from the local input: every chunk up to
  and with the first read that returns an error.\<close>

fun bytes_read :: "read_result list \<Rightarrow> bytes" where
  "bytes_read [] = []"
| "bytes_read (ReadData b # rs) = b @ bytes_read rs"
| "bytes_read (r # rs) = read_bytes r"

text \<open>The events that put bytes from the server before the loop.\<close>

fun is_response :: "int \<times> event \<Rightarrow> bool" where
  "is_response (t, Response b) = True"
| "is_response (t, e) = False"

section \<open>Scenarios\<close>

text \<open>The client of the timed scenarios of the specification: a timeout of 200 time units.\<close>

definition tc200 :: TelnetClient where
  "tc200 = \<lparr>destination = ''example.com:2513'', responseTimeout = 200\<rparr>"

section \<open>Properties of the handshake\<close>

lemma fields_nonempty: "nul_fields p \<noteq> []"
  by (induction p) (auto split: list.splits)

lemma fields_no_NUL: "NUL \<notin> set a \<Longrightarrow> nul_fields (a @ NUL # b) = a # nul_fields b"
  by (induction a) (auto split: list.splits)

lemma hd_fields_append:
  "NUL \<notin> set a \<Longrightarrow> hd (nul_fields (a @ b)) = a @ hd (nul_fields b)"
  using fields_nonempty by (induction a) (auto split: list.splits)

text \<open>
  C1. For name \<^verbatim>\<open>bob\<close>, tag \<^verbatim>\<open>ABC\<close> and an empty or absent door code, the second variant
  sends NUL, NUL, \<^verbatim>\<open>[ABC]bob\<close>, NUL, NUL: the local user name field is empty, and a NUL stands
  for the empty terminal type. The first variant sends NUL, \<^verbatim>\<open>local_username\<close>, NUL,
  \<^verbatim>\<open>[ABC]bob\<close>, NUL: the placeholder, and no NUL for the terminal type. Neither takes a local
  name from the configuration.
\<close>

theorem scenarioA_handshake:
  "handshake_flag (scenarioA None) = [NUL, NUL] @ ''[ABC]bob'' @ [NUL, NUL] \<and>
   handshake_flag (scenarioA (Some [])) = [NUL, NUL] @ ''[ABC]bob'' @ [NUL, NUL] \<and>
   handshake_kingpin (scenarioA None) = [NUL] @ ''local_username'' @ [NUL] @ ''[ABC]bob'' @ [NUL] \<and>
   handshake_kingpin (scenarioA (Some [])) =
     [NUL] @ ''local_username'' @ [NUL] @ ''[ABC]bob'' @ [NUL]"
  by (simp add: handshake_flag_def handshake_kingpin_def scenarioA_def)

text \<open>The payload NUL, \<^verbatim>\<open>bob\<close>, NUL, \<^verbatim>\<open>[ABC]bob\<close>, NUL, NUL is sent by neither variant.\<close>

theorem scenarioA_handshake_counterexample:
  "handshake_kingpin (scenarioA None) \<noteq> [NUL] @ ''bob'' @ [NUL] @ ''[ABC]bob'' @ [NUL, NUL] \<and>
   handshake_kingpin (scenarioA (Some [])) \<noteq> [NUL] @ ''bob'' @ [NUL] @ ''[ABC]bob'' @ [NUL, NUL] \<and>
   handshake_flag (scenarioA None) \<noteq> [NUL] @ ''bob'' @ [NUL] @ ''[ABC]bob'' @ [NUL, NUL] \<and>
   handshake_flag (scenarioA (Some [])) \<noteq> [NUL] @ ''bob'' @ [NUL] @ ''[ABC]bob'' @ [NUL, NUL]"
  by (simp add: handshake_flag_def handshake_kingpin_def scenarioA_def)

lemma xtrn_head:
  assumes "code \<noteq> []"
  shows "list_ex (\<lambda>f. take 5 f = ''xtrn='') (nul_fields (''xtrn='' @ code @ [NUL]))"
proof -
  have "take 5 (hd (nul_fields (''xtrn='' @ code @ [NUL]))) = ''xtrn=''"
    using hd_fields_append[of "''xtrn=''" "code @ [NUL]"] by simp
  then show ?thesis
    using fields_nonempty[of "''xtrn='' @ code @ [NUL]"]
    by (cases "nul_fields (''xtrn='' @ code @ [NUL])") auto
qed

lemma kingpin_fields:
  assumes "NUL \<notin> set (name options)" "NUL \<notin> set (tag options)"
  shows "nul_fields (handshake_kingpin options) =
     [[], ''local_username'', ''['' @ tag options @ '']'' @ name options] @
     (case xtrn options of None \<Rightarrow> [[]]
      | Some code \<Rightarrow> if code \<noteq> [] then nul_fields (''xtrn='' @ code @ [NUL]) else [[]])"
proof -
  let ?mid = "''['' @ tag options @ '']'' @ name options"
  have mid: "NUL \<notin> set ?mid" using assms by simp
  have "nul_fields ([NUL] @ ''local_username'' @ [NUL] @ ?mid @ NUL # r) =
        [[], ''local_username'', ?mid] @ nul_fields r" for r
    using fields_no_NUL[OF mid, of r] fields_no_NUL[of "''local_username''" "?mid @ NUL # r"]
    by simp
  from this[of "[]"] this[of "''xtrn='' @ the (xtrn options) @ [NUL]"]
  show ?thesis by (auto simp: handshake_kingpin_def split: option.splits)
qed

lemma flag_fields:
  assumes "NUL \<notin> set (name options)" "NUL \<notin> set (tag options)"
  shows "nul_fields (handshake_flag options) =
     [[], [], ''['' @ tag options @ '']'' @ name options] @
     (case xtrn options of None \<Rightarrow> [[], []]
      | Some code \<Rightarrow> if code \<noteq> [] then nul_fields (''xtrn='' @ code @ [NUL]) else [[], []])"
proof -
  let ?mid = "''['' @ tag options @ '']'' @ name options"
  have mid: "NUL \<notin> set ?mid" using assms by simp
  have "nul_fields ([NUL] @ [] @ [NUL] @ ?mid @ NUL # r) = [[], [], ?mid] @ nul_fields r" for r
    using fields_no_NUL[OF mid, of r] by simp
  from this[of "[NUL]"] this[of "''xtrn='' @ the (xtrn options) @ [NUL]"]
  show ?thesis by (auto simp: handshake_flag_def split: option.splits)
qed

text \<open>
  C6. The payload has an xtrn field exactly when the door code is present and not empty
  (for a name and a tag without NUL, as the payload is read field by field); a present,
  non-empty code \<open>code\<close> puts \<^verbatim>\<open>xtrn=\<close>, \<open>code\<close>, NUL at the end of the payload; an empty
  door code gives the payload of an absent one.
\<close>

theorem xtrn_field_iff:
  "(NUL \<notin> set (name options) \<and> NUL \<notin> set (tag options) \<longrightarrow>
      (has_xtrn_field (handshake_kingpin options) \<longleftrightarrow>
         (\<exists>code. xtrn options = Some code \<and> code \<noteq> [])) \<and>
      (has_xtrn_field (handshake_flag options) \<longleftrightarrow>
         (\<exists>code. xtrn options = Some code \<and> code \<noteq> []))) \<and>
   (xtrn options = Some code \<and> code \<noteq> [] \<longrightarrow>
      suffix (''xtrn='' @ code @ [NUL]) (handshake_kingpin options) \<and>
      suffix (''xtrn='' @ code @ [NUL]) (handshake_flag options)) \<and>
   handshake_kingpin (options\<lparr>xtrn := Some []\<rparr>) = handshake_kingpin (options\<lparr>xtrn := None\<rparr>) \<and>
   handshake_flag (options\<lparr>xtrn := Some []\<rparr>) = handshake_flag (options\<lparr>xtrn := None\<rparr>)"
proof (intro conjI impI)
  assume a: "NUL \<notin> set (name options) \<and> NUL \<notin> set (tag options)"
  show "has_xtrn_field (handshake_kingpin options) \<longleftrightarrow>
         (\<exists>code. xtrn options = Some code \<and> code \<noteq> [])"
    using a kingpin_fields[of options] xtrn_head
    by (auto simp: has_xtrn_field_def split: option.splits)
  show "has_xtrn_field (handshake_flag options) \<longleftrightarrow>
         (\<exists>code. xtrn options = Some code \<and> code \<noteq> [])"
    using a flag_fields[of options] xtrn_head
    by (auto simp: has_xtrn_field_def split: option.splits)
next
  assume "xtrn options = Some code \<and> code \<noteq> []"
  then show "suffix (''xtrn='' @ code @ [NUL]) (handshake_kingpin options)"
    and "suffix (''xtrn='' @ code @ [NUL]) (handshake_flag options)"
    by (auto simp: handshake_kingpin_def handshake_flag_def suffix_def)
next
  show "handshake_kingpin (options\<lparr>xtrn := Some []\<rparr>) = handshake_kingpin (options\<lparr>xtrn := None\<rparr>)"
    by (simp add: handshake_kingpin_def)
  show "handshake_flag (options\<lparr>xtrn := Some []\<rparr>) = handshake_flag (options\<lparr>xtrn := None\<rparr>)"
    by (simp add: handshake_flag_def)
qed

theorem xtrn_field_iff_witness:
  "has_xtrn_field (handshake_kingpin (scenarioA (Some ''MRC''))) \<and>
   has_xtrn_field (handshake_flag (scenarioA (Some ''MRC''))) \<and>
   suffix (''xtrn=MRC'' @ [NUL]) (handshake_kingpin (scenarioA (Some ''MRC''))) \<and>
   suffix (''xtrn=MRC'' @ [NUL]) (handshake_flag (scenarioA (Some ''MRC''))) \<and>
   \<not> has_xtrn_field (handshake_kingpin (scenarioA (Some []))) \<and>
   \<not> has_xtrn_field (handshake_flag (scenarioA None))"
  using xtrn_field_iff[of "scenarioA (Some ''MRC'')" "''MRC''"]
        xtrn_field_iff[of "scenarioA (Some [])" "[]"]
        xtrn_field_iff[of "scenarioA None" "[]"]
  by (simp add: scenarioA_def)

text \<open>
  C9. With an absent or empty door code the two variants send different payloads: the first
  fills the local user name with the placeholder and ends after the NUL of the remote name,
  the second leaves the local user name empty and appends a NUL for the terminal type.
\<close>

theorem variants_differ:
  assumes "xtrn options = None \<or> xtrn options = Some []"
  shows "handshake_kingpin options \<noteq> handshake_flag options \<and>
         handshake_kingpin options =
           [NUL] @ ''local_username'' @ [NUL] @ ''['' @ tag options @ '']'' @ name options @ [NUL] \<and>
         handshake_flag options =
           [NUL] @ [] @ [NUL] @ ''['' @ tag options @ '']'' @ name options @ [NUL] @ [NUL]"
  using assms by (auto simp: handshake_kingpin_def handshake_flag_def)

theorem variants_differ_witness:
  "xtrn (scenarioA None) = None \<and>
   handshake_kingpin (scenarioA None) \<noteq> handshake_flag (scenarioA None) \<and>
   handshake_kingpin (scenarioA None) = [NUL] @ ''local_username'' @ [NUL] @ ''[ABC]bob'' @ [NUL] \<and>
   handshake_flag (scenarioA None) = [NUL, NUL] @ ''[ABC]bob'' @ [NUL, NUL]"
proof -
  have h: "xtrn (scenarioA None) = None \<or> xtrn (scenarioA None) = Some []"
    by (simp add: scenarioA_def)
  show ?thesis using variants_differ[OF h] by (simp add: scenarioA_def)
qed

section \<open>Properties of the relay\<close>

lemma closes_append: "closes (a @ b) = closes a + closes b" by (simp add: closes_def)

lemma loop_append:
  "loop step s (a @ b) =
     (if fst (loop step s a) = Running then loop step (snd (loop step s a)) b else loop step s a)"
proof (induction a arbitrary: s)
  case Nil
  show ?case by simp
next
  case (Cons e a)
  obtain st s' where st: "step s e = (st, s')" by (cases "step s e")
  show ?case using Cons[of s'] st by simp
qed

lemma offered_Request:
  assumes "prefix (SendRequest b # rest) (readInputData reads)"
  shows "\<exists>reads'. reads = ReadData b # reads' \<and> prefix rest (readInputData reads')"
  using assms by (cases reads rule: readInputData.cases) auto

lemma offered_Done:
  assumes "prefix (SendDone # rest) (readInputData reads)"
  shows "((\<exists>rs. reads = ReadEOF # rs) \<or> (\<exists>c rs. reads = ReadDataEOF c # rs)) \<and> rest = []"
  using assms by (cases reads rule: readInputData.cases) auto

lemma offered_Fatal:
  assumes "prefix (LogFatal m # rest) (readInputData reads)"
  shows "((\<exists>rs. reads = ReadError # rs) \<or> (\<exists>c rs. reads = ReadDataError c # rs)) \<and> rest = []"
  using assms by (cases reads rule: readInputData.cases) auto

lemma unwind_simps:
  "fst (unwind r) = fst r"
  "wire (trace (snd (unwind r))) = wire (trace (snd r))"
  "printed (trace (snd (unwind r))) = printed (trace (snd r))"
  "afterEOFMode (snd (unwind r)) = afterEOFMode (snd r)"
  "now (snd (unwind r)) = now (snd r)"
  by (cases r; cases "fst r"; simp add: unwind_def wire_def printed_def)+

lemma ProcessData_loop:
  assumes "0 < responseTimeout t"
  shows "ProcessData encode select t options True WriteOk t0 schedule =
         unwind (loop (select (responseTimeout t))
                   (start [ConnWrite (encode options) WriteOk] t0 (responseTimeout t)) schedule)"
  using assms by (simp add: ProcessData_def Let_def)

text \<open>
  A schedule in which every request carries the bytes that the pump sent, and whose input
  side follows the actions of \<^verbatim>\<open>readInputData\<close>, can happen, whatever the buffer held before.
\<close>

lemma handed_over:
  assumes "prefix (concat (map input_side schedule)) (readInputData reads)"
  shows "offered buffer reads schedule"
  using assms
proof (induction schedule arbitrary: reads buffer)
  case Nil
  show ?case by simp
next
  case (Cons te es)
  obtain t e where te: "te = (t, e)" by (cases te)
  show ?case
  proof (cases e)
    case (Request b w)
    from Cons.prems obtain reads' where r: "reads = ReadData b # reads'"
      and p: "prefix (concat (map input_side es)) (readInputData reads')"
      using offered_Request[of b "concat (map input_side es)" reads] by (auto simp: te Request)
    from Cons.IH[OF p, of "refill buffer b"] show ?thesis
      by (simp add: te Request r refill_def)
  next
    case Done
    from Cons.prems have "(\<exists>rs. reads = ReadEOF # rs) \<or> (\<exists>c rs. reads = ReadDataEOF c # rs)"
      and e: "concat (map input_side es) = []"
      using offered_Done[of "concat (map input_side es)" reads] by (auto simp: te Done)
    moreover have "offered buf [] es" for buf using Cons.IH[of "[]" buf] e by simp
    ultimately show ?thesis by (auto simp: te Done)
  next
    case InputFatal
    from Cons.prems have "(\<exists>rs. reads = ReadError # rs) \<or> (\<exists>c rs. reads = ReadDataError c # rs)"
      and e: "concat (map input_side es) = []"
      using offered_Fatal[of "''Error reading input data''" "concat (map input_side es)" reads]
      by (auto simp: te InputFatal)
    moreover have "offered buf [] es" for buf using Cons.IH[of "[]" buf] e by simp
    ultimately show ?thesis by (auto simp: te InputFatal)
  next
    case (Response b)
    with Cons show ?thesis by (simp add: te)
  next
    case Tick
    with Cons show ?thesis by (simp add: te)
  next
    case Disconnected
    with Cons show ?thesis by (simp add: te)
  qed
qed

text \<open>
  C2. The local input delivers \<^verbatim>\<open>a\<close>, \<^verbatim>\<open>b\<close>, \<^verbatim>\<open>c\<close> in three reads and then \<^verbatim>\<open>io.EOF\<close>; the
  pump's second read has refilled the buffer before the loop writes the first request;
  every write succeeds and the loop handles the end of input. The bytes read are \<^verbatim>\<open>abc\<close>,
  and both variants write \<^verbatim>\<open>bbc\<close> to the connection after the handshake: \<^verbatim>\<open>a\<close> is lost and
  \<^verbatim>\<open>b\<close> is written twice. And when a read returns \<^verbatim>\<open>a\<close> together with \<^verbatim>\<open>io.EOF\<close>, the pump
  sends the end of input only and \<^verbatim>\<open>a\<close> is never written.
\<close>

theorem relay_aliasing:
  "input_offered [ReadData ''a'', ReadData ''b'', ReadData ''c'', ReadEOF]
     [(10, Request ''b'' WriteOk), (20, Request ''b'' WriteOk), (30, Request ''c'' WriteOk),
      (40, Done)] \<and>
   bytes_read [ReadData ''a'', ReadData ''b'', ReadData ''c'', ReadEOF] = ''abc'' \<and>
   fst (ProcessData_kingpin tc200 (scenarioA None) True WriteOk 0
     [(10, Request ''b'' WriteOk), (20, Request ''b'' WriteOk), (30, Request ''c'' WriteOk),
      (40, Done)]) = Running \<and>
   wire (trace (snd (ProcessData_kingpin tc200 (scenarioA None) True WriteOk 0
     [(10, Request ''b'' WriteOk), (20, Request ''b'' WriteOk), (30, Request ''c'' WriteOk),
      (40, Done)]))) = handshake_kingpin (scenarioA None) @ ''bbc'' \<and>
   fst (ProcessData_flag tc200 (scenarioA None) True WriteOk 0
     [(10, Request ''b'' WriteOk), (20, Request ''b'' WriteOk), (30, Request ''c'' WriteOk),
      (40, Done)]) = Running \<and>
   wire (trace (snd (ProcessData_flag tc200 (scenarioA None) True WriteOk 0
     [(10, Request ''b'' WriteOk), (20, Request ''b'' WriteOk), (30, Request ''c'' WriteOk),
      (40, Done)]))) = handshake_flag (scenarioA None) @ ''bbc'' \<and>
   readInputData [ReadDataEOF ''a''] = [SendDone] \<and>
   input_offered [ReadDataEOF ''a''] [(10, Done)] \<and>
   bytes_read [ReadDataEOF ''a''] = ''a'' \<and>
   wire (trace (snd (ProcessData_kingpin tc200 (scenarioA None) True WriteOk 0 [(10, Done)]))) =
     handshake_kingpin (scenarioA None) \<and>
   wire (trace (snd (ProcessData_flag tc200 (scenarioA None) True WriteOk 0 [(10, Done)]))) =
     handshake_flag (scenarioA None)"
  by (simp add: input_offered_def defaultBufferSize_def refill_def ProcessData_kingpin_def
      ProcessData_flag_def ProcessData_def tc200_def Let_def start_def unwind_def wire_def)

lemma select_kingpin_closes: "closes (trace (snd (select_kingpin d s e))) = closes (trace s)"
  by (cases "(d, s, e)" rule: select_kingpin.cases) (auto simp: closes_def split: write_result.splits)

lemma select_flag_closes: "closes (trace (snd (select_flag d s e))) = closes (trace s)"
  by (cases "(d, s, e)" rule: select_flag.cases) (auto simp: closes_def split: write_result.splits)

lemma loop_closes:
  assumes "\<And>s e. closes (trace (snd (step s e))) = closes (trace s)"
  shows "closes (trace (snd (loop step s es))) = closes (trace s)"
proof (induction es arbitrary: s)
  case Nil
  show ?case by simp
next
  case (Cons e es)
  obtain st s' where st: "step s e = (st, s')" by (cases "step s e")
  have "closes (trace s') = closes (trace s)" using assms[of s e] st by simp
  then show ?case using Cons[of s'] st by simp
qed

lemma ProcessData_closes:
  assumes "\<And>d s e. closes (trace (snd (select d s e))) = closes (trace s)"
    and "fst (ProcessData encode select t options dial_ok hw t0 schedule) = Returned why"
  shows "closes (trace (snd (ProcessData encode select t options dial_ok hw t0 schedule))) = 1"
proof -
  let ?d = "responseTimeout t"
  let ?s = "start [ConnWrite (encode options) WriteOk] t0 ?d"
  let ?r = "loop (select ?d) ?s schedule"
  from assms(2) have ok: "dial_ok" "hw = WriteOk" "0 < ?d"
    by (auto simp: ProcessData_def Let_def unwind_def split: if_splits write_result.splits)
  then have P: "ProcessData encode select t options dial_ok hw t0 schedule = unwind ?r"
    using ProcessData_loop[of t encode select options t0 schedule] by simp
  with assms(2) have "fst ?r = Returned why" by (simp add: unwind_simps)
  then have "trace (snd (unwind ?r)) = trace (snd ?r) @ [ConnClose, LogPrint ''Connection closed.'']"
    by (cases ?r) (simp add: unwind_def)
  moreover have "closes (trace (snd ?r)) = closes (trace ?s)"
    using loop_closes[of "select ?d" ?s schedule] assms(1) by simp
  moreover have "closes (trace ?s) = 0" by (simp add: start_def closes_def)
  ultimately show ?thesis using P by (simp add: closes_append) (simp add: closes_def)
qed

lemma pumps_never_close:
  "closes (readInputData reads) = 0"
  "closes (readServerData_kingpin reads) = 0"
  "closes (readServerData_flag reads) = 0"
proof -
  show "closes (readInputData reads) = 0"
    by (induction reads rule: readInputData.induct) (simp_all add: closes_def)
  show "closes (readServerData_kingpin reads) = 0"
    by (induction reads rule: readServerData_kingpin.induct) (simp_all add: closes_def)
  show "closes (readServerData_flag reads) = 0"
    by (induction reads rule: readServerData_flag.induct) (simp_all add: closes_def)
qed

text \<open>
  C4. Whenever \<^verbatim>\<open>ProcessData\<close> returns from its loop (by the timeout, by the disconnect, by
  a failed write, and in the second variant by the closing flag) its trace closes the
  connection exactly once; the pumps never close it.
\<close>

theorem connection_closed_once:
  "(fst (ProcessData_kingpin t options dial_ok hw t0 schedule) = Returned why \<longrightarrow>
      closes (trace (snd (ProcessData_kingpin t options dial_ok hw t0 schedule))) = 1) \<and>
   (fst (ProcessData_flag t options dial_ok hw t0 schedule) = Returned why \<longrightarrow>
      closes (trace (snd (ProcessData_flag t options dial_ok hw t0 schedule))) = 1) \<and>
   closes (readInputData reads) = 0 \<and>
   closes (readServerData_kingpin reads') = 0 \<and>
   closes (readServerData_flag reads') = 0"
  unfolding ProcessData_kingpin_def ProcessData_flag_def
  using ProcessData_closes[of select_kingpin handshake_kingpin, OF select_kingpin_closes]
        ProcessData_closes[of select_flag handshake_flag, OF select_flag_closes]
        pumps_never_close
  by blast

theorem connection_closed_once_witness:
  "fst (ProcessData_kingpin tc200 (scenarioA None) True WriteOk 0 [(0, Done), (200, Tick)]) =
     Returned InactivityTimeout \<and>
   closes (trace (snd (ProcessData_kingpin tc200 (scenarioA None) True WriteOk 0
     [(0, Done), (200, Tick)]))) = 1 \<and>
   fst (ProcessData_flag tc200 (scenarioA None) True WriteOk 0 [(50, Disconnected)]) =
     Returned ServerDisconnect \<and>
   closes (trace (snd (ProcessData_flag tc200 (scenarioA None) True WriteOk 0
     [(50, Disconnected)]))) = 1 \<and>
   fst (ProcessData_kingpin tc200 (scenarioA None) True WriteOk 0
     [(10, Request ''a'' (WriteError 0))]) = Returned WriteFailed \<and>
   closes (trace (snd (ProcessData_kingpin tc200 (scenarioA None) True WriteOk 0
     [(10, Request ''a'' (WriteError 0))]))) = 1 \<and>
   closes (readInputData [ReadData ''a'', ReadEOF]) = 0 \<and>
   closes (readServerData_kingpin [ReadData ''x'', ReadEOF]) = 0 \<and>
   closes (readServerData_flag [ReadData ''x'', ReadError]) = 0"
proof -
  have k: "fst (ProcessData_kingpin tc200 (scenarioA None) True WriteOk 0
      [(0, Done), (200, Tick)]) = Returned InactivityTimeout"
    by (simp add: ProcessData_kingpin_def ProcessData_def tc200_def Let_def start_def unwind_def)
  have f: "fst (ProcessData_flag tc200 (scenarioA None) True WriteOk 0 [(50, Disconnected)]) =
      Returned ServerDisconnect"
    by (simp add: ProcessData_flag_def ProcessData_def tc200_def Let_def start_def unwind_def)
  have w: "fst (ProcessData_kingpin tc200 (scenarioA None) True WriteOk 0
      [(10, Request ''a'' (WriteError 0))]) = Returned WriteFailed"
    by (simp add: ProcessData_kingpin_def ProcessData_def tc200_def Let_def start_def unwind_def)
  show ?thesis
    using k f w
      connection_closed_once[where t = tc200 and options = "scenarioA None" and dial_ok = True
        and hw = WriteOk and ?t0.0 = 0 and schedule = "[(0, Done), (200, Tick)]"
        and why = InactivityTimeout and reads = "[ReadData ''a'', ReadEOF]"
        and reads' = "[ReadData ''x'', ReadEOF]"]
      connection_closed_once[where t = tc200 and options = "scenarioA None" and dial_ok = True
        and hw = WriteOk and ?t0.0 = 0 and schedule = "[(10, Request ''a'' (WriteError 0))]"
        and why = WriteFailed and reads = "[ReadData ''a'', ReadEOF]"
        and reads' = "[ReadData ''x'', ReadError]"]
      connection_closed_once[where t = tc200 and options = "scenarioA None" and dial_ok = True
        and hw = WriteOk and ?t0.0 = 0 and schedule = "[(50, Disconnected)]"
        and why = ServerDisconnect and reads = "[ReadData ''a'', ReadEOF]"
        and reads' = "[ReadData ''x'', ReadEOF]"]
    by simp
qed

text \<open>
  C7. When the write of the handshake fails, \<^verbatim>\<open>log.Fatalf\<close> reports the failure and ends the
  process: whatever the schedule, no event is handled (the loop is never entered), and
  \<^verbatim>\<open>ProcessData\<close> does not return to its caller.
\<close>

theorem handshake_write_failure:
  "ProcessData_kingpin t options True (WriteError n) t0 schedule =
     (Exited, start [ConnWrite (handshake_kingpin options) (WriteError n),
                     LogFatal ''Failed to send rlogin handshake''] t0 (responseTimeout t)) \<and>
   ProcessData_flag t options True (WriteError n) t0 schedule =
     (Exited, start [ConnWrite (handshake_flag options) (WriteError n),
                     LogFatal ''Failed to send rlogin handshake''] t0 (responseTimeout t))"
  by (simp add: ProcessData_kingpin_def ProcessData_flag_def ProcessData_def Let_def unwind_def)

text \<open>
  A handshake write that fails at once: the process exits, and the trace has no
  \<open>ConnClose\<close>, the deferred function not having run.
\<close>

theorem handshake_write_failure_counterexample:
  "fst (ProcessData_kingpin tc200 (scenarioA None) True (WriteError 0) 0 []) = Exited \<and>
   closes (trace (snd (ProcessData_kingpin tc200 (scenarioA None) True (WriteError 0) 0 []))) = 0 \<and>
   fst (ProcessData_flag tc200 (scenarioA None) True (WriteError 0) 0 []) = Exited \<and>
   closes (trace (snd (ProcessData_flag tc200 (scenarioA None) True (WriteError 0) 0 []))) = 0"
  by (simp add: ProcessData_kingpin_def ProcessData_flag_def ProcessData_def Let_def unwind_def
      start_def closes_def)

lemma ProcessData_Running:
  assumes "fst (ProcessData encode select t options dial_ok hw t0 schedule) = Running"
  shows "dial_ok \<and> hw = WriteOk \<and> 0 < responseTimeout t"
  using assms
  by (auto simp: ProcessData_def Let_def unwind_def split: if_splits write_result.splits)

lemma unwind_Running: "fst r = Running \<Longrightarrow> unwind r = r"
  by (cases r) (simp add: unwind_def)

lemma unwind_Exited: "unwind (Exited, s) = (Exited, s)"
  by (simp add: unwind_def)

lemma readInputData_error:
  "readInputData (map ReadData chunks @ ReadError # rest) =
     map SendRequest chunks @ [LogFatal ''Error reading input data'']"
  by (induction chunks) simp_all

lemma ProcessData_InputFatal:
  assumes fatal: "\<And>d s u. select d s (u, InputFatal) = (Exited, s\<lparr>now := u\<rparr>)"
    and run: "fst (ProcessData encode select t options True WriteOk t0 pre) = Running"
  shows "ProcessData encode select t options True WriteOk t0 (pre @ (u, InputFatal) # post) =
         (Exited, (snd (ProcessData encode select t options True WriteOk t0 pre))\<lparr>now := u\<rparr>)"
proof -
  let ?d = "responseTimeout t"
  let ?s = "start [ConnWrite (encode options) WriteOk] t0 ?d"
  from ProcessData_Running[OF run] have d: "0 < ?d" by simp
  have pre: "ProcessData encode select t options True WriteOk t0 pre = loop (select ?d) ?s pre"
    and r: "fst (loop (select ?d) ?s pre) = Running"
    using run unwind_Running[of "loop (select ?d) ?s pre"]
    by (simp_all add: ProcessData_loop[OF d] unwind_simps)
  have "loop (select ?d) ?s (pre @ (u, InputFatal) # post) =
        (Exited, (snd (loop (select ?d) ?s pre))\<lparr>now := u\<rparr>)"
    using r by (simp add: loop_append fatal)
  then show ?thesis by (simp add: ProcessData_loop[OF d] unwind_Running[OF r] unwind_Exited)
qed

text \<open>
  C8. When a read of the local input fails with an error other than \<^verbatim>\<open>io.EOF\<close>, the input
  pump sends the chunks read so far and then calls \<^verbatim>\<open>log.Fatalf\<close>: it never sends the
  end-of-input signal, and the whole process ends where it stands, the loop making no
  further transition from the state it had.
\<close>

theorem input_error_exits:
  "readInputData (map ReadData chunks @ ReadError # rest) =
     map SendRequest chunks @ [LogFatal ''Error reading input data''] \<and>
   (fst (ProcessData_kingpin t options True WriteOk t0 pre) = Running \<longrightarrow>
      ProcessData_kingpin t options True WriteOk t0 (pre @ (u, InputFatal) # post) =
        (Exited, (snd (ProcessData_kingpin t options True WriteOk t0 pre))\<lparr>now := u\<rparr>)) \<and>
   (fst (ProcessData_flag t options True WriteOk t0 pre) = Running \<longrightarrow>
      ProcessData_flag t options True WriteOk t0 (pre @ (u, InputFatal) # post) =
        (Exited, (snd (ProcessData_flag t options True WriteOk t0 pre))\<lparr>now := u\<rparr>))"
  unfolding ProcessData_kingpin_def ProcessData_flag_def
  using readInputData_error[of chunks rest]
    ProcessData_InputFatal[of select_kingpin handshake_kingpin t options t0 pre u post]
    ProcessData_InputFatal[of select_flag handshake_flag t options t0 pre u post]
  by simp

theorem input_error_exits_witness:
  "readInputData (map ReadData [''a''] @ ReadError # []) =
     [SendRequest ''a'', LogFatal ''Error reading input data''] \<and>
   fst (ProcessData_kingpin tc200 (scenarioA None) True WriteOk 0 [(10, Request ''a'' WriteOk)]) =
     Running \<and>
   fst (ProcessData_kingpin tc200 (scenarioA None) True WriteOk 0
     ([(10, Request ''a'' WriteOk)] @ (20, InputFatal) # [])) = Exited \<and>
   fst (ProcessData_flag tc200 (scenarioA None) True WriteOk 0 [(10, Request ''a'' WriteOk)]) =
     Running \<and>
   fst (ProcessData_flag tc200 (scenarioA None) True WriteOk 0
     ([(10, Request ''a'' WriteOk)] @ (20, InputFatal) # [])) = Exited"
proof -
  have k: "fst (ProcessData_kingpin tc200 (scenarioA None) True WriteOk 0
      [(10, Request ''a'' WriteOk)]) = Running"
    by (simp add: ProcessData_kingpin_def ProcessData_def tc200_def Let_def start_def unwind_def)
  have f: "fst (ProcessData_flag tc200 (scenarioA None) True WriteOk 0
      [(10, Request ''a'' WriteOk)]) = Running"
    by (simp add: ProcessData_flag_def ProcessData_def tc200_def Let_def start_def unwind_def)
  show ?thesis
    using k f
      input_error_exits[where chunks = "[''a'']" and rest = "[]" and t = tc200
        and options = "scenarioA None" and ?t0.0 = 0 and pre = "[(10, Request ''a'' WriteOk)]"
        and u = 20 and post = "[]"]
    by simp
qed

text \<open>
  A read error after one chunk: the pump does what it does for no end of input, and both
  variants end as \<open>Exited\<close> with no \<open>ConnClose\<close> in the trace.
\<close>

theorem input_error_counterexample:
  "readInputData [ReadData ''a'', ReadError] =
     [SendRequest ''a'', LogFatal ''Error reading input data''] \<and>
   readInputData [ReadData ''a'', ReadEOF] = [SendRequest ''a'', SendDone] \<and>
   input_offered [ReadData ''a'', ReadError] [(10, Request ''a'' WriteOk), (20, InputFatal)] \<and>
   ProcessData_kingpin tc200 (scenarioA None) True WriteOk 0
     [(10, Request ''a'' WriteOk), (20, InputFatal)] =
   (Exited,
    \<lparr>afterEOFMode = False, somethingRead = False, closing = False, now = 20, next_tick = 200,
     trace = [ConnWrite (handshake_kingpin (scenarioA None)) WriteOk,
              ConnWrite ''a'' WriteOk]\<rparr>) \<and>
   ProcessData_flag tc200 (scenarioA None) True WriteOk 0
     [(10, Request ''a'' WriteOk), (20, InputFatal)] =
   (Exited,
    \<lparr>afterEOFMode = False, somethingRead = False, closing = False, now = 20, next_tick = 200,
     trace = [ConnWrite (handshake_flag (scenarioA None)) WriteOk,
              ConnWrite ''a'' WriteOk]\<rparr>)"
  by (simp add: input_offered_def defaultBufferSize_def refill_def ProcessData_kingpin_def
      ProcessData_flag_def ProcessData_def
      tc200_def Let_def start_def unwind_def)

lemma flag_closing_loop:
  assumes "closing s"
  shows "printed (trace (snd (loop (select_flag d) s es))) = printed (trace s) \<and>
         closing (snd (loop (select_flag d) s es))"
  using assms
proof (induction es arbitrary: s)
  case Nil
  then show ?case by simp
next
  case (Cons te es)
  obtain t e where te: "te = (t, e)" by (cases te)
  show ?case
  proof (cases e)
    case (Request b w)
    then show ?thesis using Cons.prems by (simp add: te printed_def)
  next
    case Done
    have "closing (s\<lparr>now := t, afterEOFMode := True, closing := True\<rparr>)" by simp
    from Cons.IH[OF this] show ?thesis by (simp add: te Done)
  next
    case (Response b)
    then show ?thesis using Cons.prems by (simp add: te printed_def)
  next
    case Tick
    have "closing (s\<lparr>now := t, next_tick := next_tick s + d\<rparr>)" using Cons.prems by simp
    from Cons.IH[OF this] show ?thesis using Cons.prems by (simp add: te Tick printed_def)
  next
    case Disconnected
    then show ?thesis using Cons.prems by (simp add: te printed_def)
  next
    case InputFatal
    then show ?thesis using Cons.prems by (simp add: te)
  qed
qed

lemma flag_after_Done:
  "printed (trace (snd (loop (select_flag d) s (pre @ (u, Done) # post)))) =
     printed (trace (snd (loop (select_flag d) s pre))) \<and>
   (fst (loop (select_flag d) s (pre @ (u, Done) # post)) = Running \<longrightarrow>
      closing (snd (loop (select_flag d) s (pre @ (u, Done) # post))))"
proof (cases "fst (loop (select_flag d) s pre) = Running")
  case True
  let ?s1 = "(snd (loop (select_flag d) s pre))\<lparr>now := u, afterEOFMode := True, closing := True\<rparr>"
  have "loop (select_flag d) s (pre @ (u, Done) # post) = loop (select_flag d) ?s1 post"
    using True by (simp add: loop_append)
  then show ?thesis using flag_closing_loop[of ?s1 d post] by simp
next
  case False
  then show ?thesis by (simp add: loop_append)
qed

text \<open>
  C10. In the second variant nothing is written to the local output once the loop has
  handled the end of input: the output of a session is the output of its schedule up to
  the first \<open>Done\<close>; and a response received after \<open>Done\<close>, while the loop still runs,
  makes \<^verbatim>\<open>ProcessData\<close> return at once (\<^verbatim>\<open>Connection closing; stopping reads.\<close>).
\<close>

theorem flag_no_output_after_done:
  "printed (trace (snd (ProcessData_flag t options dial_ok hw t0 (pre @ (u, Done) # post)))) =
     printed (trace (snd (ProcessData_flag t options dial_ok hw t0 pre))) \<and>
   (fst (ProcessData_flag t options dial_ok hw t0 (pre @ (u, Done) # mid)) = Running \<longrightarrow>
      fst (ProcessData_flag t options dial_ok hw t0
             ((pre @ (u, Done) # mid) @ (v, Response b) # post)) = Returned StoppingReads \<and>
      now (snd (ProcessData_flag t options dial_ok hw t0
             ((pre @ (u, Done) # mid) @ (v, Response b) # post))) = v)"
proof (cases "dial_ok \<and> hw = WriteOk \<and> 0 < responseTimeout t")
  case False
  have "fst (ProcessData_flag t options dial_ok hw t0 (pre @ (u, Done) # mid)) \<noteq> Running"
    using ProcessData_Running[of handshake_flag select_flag t options dial_ok hw t0] False
    unfolding ProcessData_flag_def by blast
  moreover have "ProcessData_flag t options dial_ok hw t0 (pre @ (u, Done) # post) =
      ProcessData_flag t options dial_ok hw t0 pre"
    using False
    by (auto simp: ProcessData_flag_def ProcessData_def Let_def split: write_result.splits)
  ultimately show ?thesis by simp
next
  case True
  let ?d = "responseTimeout t"
  let ?s = "start [ConnWrite (handshake_flag options) WriteOk] t0 ?d"
  have P: "ProcessData_flag t options dial_ok hw t0 sch = unwind (loop (select_flag ?d) ?s sch)"
    for sch
    using True ProcessData_loop[of t handshake_flag select_flag options t0 sch]
    by (simp add: ProcessData_flag_def)
  have a: "printed (trace (snd (ProcessData_flag t options dial_ok hw t0 (pre @ (u, Done) # post)))) =
     printed (trace (snd (ProcessData_flag t options dial_ok hw t0 pre)))"
    using flag_after_Done[of ?d ?s pre u post] by (simp add: P unwind_simps)
  have b: "fst (ProcessData_flag t options dial_ok hw t0
             ((pre @ (u, Done) # mid) @ (v, Response b) # post)) = Returned StoppingReads \<and>
      now (snd (ProcessData_flag t options dial_ok hw t0
             ((pre @ (u, Done) # mid) @ (v, Response b) # post))) = v"
    if run: "fst (ProcessData_flag t options dial_ok hw t0 (pre @ (u, Done) # mid)) = Running"
  proof -
    let ?r = "loop (select_flag ?d) ?s (pre @ (u, Done) # mid)"
    from run have r: "fst ?r = Running" by (simp add: P unwind_simps)
    then have c: "closing (snd ?r)" using flag_after_Done[of ?d ?s pre u mid] by simp
    have "loop (select_flag ?d) ?s ((pre @ (u, Done) # mid) @ (v, Response b) # post) =
          loop (select_flag ?d) (snd ?r) ((v, Response b) # post)"
      using r loop_append[of "select_flag ?d" ?s "pre @ (u, Done) # mid" "(v, Response b) # post"]
      by simp
    then show ?thesis using c by (simp add: P unwind_simps)
  qed
  from a b show ?thesis by blast
qed

theorem flag_no_output_after_done_witness:
  "printed (trace (snd (ProcessData_flag tc200 (scenarioA None) True WriteOk 0
     ([(10, Response ''x'')] @ (20, Done) # [(100, Response ''y'')])))) = ''x'' \<and>
   fst (ProcessData_flag tc200 (scenarioA None) True WriteOk 0
     ([(10, Response ''x'')] @ (20, Done) # [])) = Running \<and>
   fst (ProcessData_flag tc200 (scenarioA None) True WriteOk 0
     (([(10, Response ''x'')] @ (20, Done) # []) @ (100, Response ''y'') # [])) =
     Returned StoppingReads \<and>
   now (snd (ProcessData_flag tc200 (scenarioA None) True WriteOk 0
     (([(10, Response ''x'')] @ (20, Done) # []) @ (100, Response ''y'') # []))) = 100"
proof -
  have p: "printed (trace (snd (ProcessData_flag tc200 (scenarioA None) True WriteOk 0
     [(10, Response ''x'')]))) = ''x''"
    by (simp add: ProcessData_flag_def ProcessData_def tc200_def Let_def start_def unwind_def
        printed_def)
  have r: "fst (ProcessData_flag tc200 (scenarioA None) True WriteOk 0
     ([(10, Response ''x'')] @ (20, Done) # [])) = Running"
    by (simp add: ProcessData_flag_def ProcessData_def tc200_def Let_def start_def unwind_def)
  show ?thesis
    using p r
      flag_no_output_after_done[where t = tc200 and options = "scenarioA None"
        and dial_ok = True and hw = WriteOk and ?t0.0 = 0 and pre = "[(10, Response ''x'')]"
        and u = 20 and post = "[(100, Response ''y'')]" and mid = "[]" and v = 100
        and b = "''y''"]
      flag_no_output_after_done[where t = tc200 and options = "scenarioA None"
        and dial_ok = True and hw = WriteOk and ?t0.0 = 0 and pre = "[(10, Response ''x'')]"
        and u = 20 and post = "[]" and mid = "[]" and v = 100 and b = "''y''"]
    by simp
qed

section \<open>Properties of the timing\<close>

lemma timely_append:
  "timely step s (a @ b) =
     (timely step s a \<and>
      (if fst (loop step s a) = Running then timely step (snd (loop step s a)) b else b = []))"
proof (induction a arbitrary: s)
  case Nil
  show ?case by simp
next
  case (Cons te a)
  obtain t e where te: "te = (t, e)" by (cases te)
  obtain st s' where st: "step s (t, e) = (st, s')" by (cases "step s (t, e)")
  have l: "loop step s (te # a) = (if st = Running then loop step s' a else (st, s'))"
    "loop step s (te # a @ b) = (if st = Running then loop step s' (a @ b) else (st, s'))"
    by (simp_all add: te st)
  have t: "timely step s (te # a @ b) =
      (now s \<le> t \<and> t \<le> next_tick s \<and> (if e = Tick then t = next_tick s else True) \<and>
       (if st = Running then timely step s' (a @ b) else a @ b = []))"
    "timely step s (te # a) =
      (now s \<le> t \<and> t \<le> next_tick s \<and> (if e = Tick then t = next_tick s else True) \<and>
       (if st = Running then timely step s' a else a = []))"
    by (simp_all add: te st)
  let ?A = "now s \<le> t \<and> t \<le> next_tick s \<and> (if e = Tick then t = next_tick s else True)"
  show ?case
  proof (cases "st = Running")
    case True
    have 1: "loop step s (te # a) = loop step s' a" using l True by simp
    have 2: "timely step s (te # a @ b) = (?A \<and> timely step s' (a @ b))" using t True by simp
    have 3: "timely step s (te # a) = (?A \<and> timely step s' a)" using t True by simp
    show ?thesis unfolding append_Cons 1 2 3 Cons[of s'] by blast
  next
    case False
    have 1: "loop step s (te # a) = (st, s')" using l False by simp
    have 2: "timely step s (te # a @ b) = (?A \<and> a @ b = [])" using t False by simp
    have 3: "timely step s (te # a) = (?A \<and> a = [])" using t False by simp
    show ?thesis unfolding append_Cons 1 2 3 using False by auto
  qed
qed

lemma kingpin_clock:
  assumes "select_kingpin d s (t, e) = (Running, s')"
  shows "now s' = t \<and> afterEOFMode s' = (afterEOFMode s \<or> e = Done) \<and>
         somethingRead s' = (somethingRead s \<or> is_response (t, e)) \<and>
         next_tick s' =
           (if e = Tick then next_tick s + d
            else if is_response (t, e) \<and> afterEOFMode s then t + d else next_tick s)"
  using assms by (cases e) (auto split: write_result.splits if_splits)

lemma flag_clock:
  assumes "select_flag d s (t, e) = (Running, s')"
  shows "now s' = t \<and> afterEOFMode s' = (afterEOFMode s \<or> e = Done) \<and>
         somethingRead s' = (somethingRead s \<or> is_response (t, e)) \<and>
         next_tick s' =
           (if e = Tick then next_tick s + d
            else if is_response (t, e) \<and> afterEOFMode s then t + d else next_tick s)"
  using assms by (cases e) (auto split: write_result.splits if_splits)

lemma either_clock:
  assumes "step = select_kingpin d \<or> step = select_flag d"
    and "step s (t, e) = (Running, s')"
  shows "now s' = t \<and> afterEOFMode s' = (afterEOFMode s \<or> e = Done) \<and>
         somethingRead s' = (somethingRead s \<or> is_response (t, e)) \<and>
         next_tick s' =
           (if e = Tick then next_tick s + d
            else if is_response (t, e) \<and> afterEOFMode s then t + d else next_tick s)"
proof -
  from assms(1) show ?thesis
  proof
    assume "step = select_kingpin d"
    with assms(2) show ?thesis using kingpin_clock[of d s t e s'] by simp
  next
    assume "step = select_flag d"
    with assms(2) show ?thesis using flag_clock[of d s t e s'] by simp
  qed
qed

lemma timely_window:
  assumes step: "step = select_kingpin d \<or> step = select_flag d"
    and "0 \<le> d" and "timely step s es" and "loop step s es = (Running, s')"
    and "now s \<le> next_tick s" and "next_tick s \<le> now s + d"
  shows "now s' \<le> next_tick s' \<and> next_tick s' \<le> now s' + d \<and>
         somethingRead s' = (somethingRead s \<or> filter is_response es \<noteq> []) \<and>
         (filter is_response es = [] \<longrightarrow>
            next_tick s' = next_tick s + int (length (filter (\<lambda>te. snd te = Tick) es)) * d)"
  using assms(3-)
proof (induction es arbitrary: s)
  case Nil
  then show ?case by simp
next
  case (Cons te es)
  obtain t e where te: "te = (t, e)" by (cases te)
  obtain st s1 where st: "step s (t, e) = (st, s1)" by (cases "step s (t, e)")
  have l: "loop step s (te # es) = (if st = Running then loop step s1 es else (st, s1))"
    by (simp add: te st)
  from Cons.prems(2) have run: "st = Running" and l1: "loop step s1 es = (Running, s')"
    unfolding l by (simp_all split: if_splits)
  from Cons.prems(1) have t: "now s \<le> t" "t \<le> next_tick s" "e = Tick \<longrightarrow> t = next_tick s"
    and tl: "timely step s1 es"
    by (simp_all add: te st run split: if_splits)
  from either_clock[OF step, of s t e s1] st run have c: "now s1 = t"
    "somethingRead s1 = (somethingRead s \<or> is_response (t, e))"
    "next_tick s1 =
       (if e = Tick then next_tick s + d
        else if is_response (t, e) \<and> afterEOFMode s then t + d else next_tick s)"
    by simp_all
  have i: "now s1 \<le> next_tick s1" "next_tick s1 \<le> now s1 + d"
    using c t Cons.prems(3,4) \<open>0 \<le> d\<close> by (auto split: if_splits)
  have k: "next_tick s1 = next_tick s + (if e = Tick then d else 0)" if "\<not> is_response (t, e)"
    using c(3) that by simp
  from Cons.IH[OF tl l1 i] have ih:
    "now s' \<le> next_tick s'" "next_tick s' \<le> now s' + d"
    "somethingRead s' = (somethingRead s1 \<or> filter is_response es \<noteq> [])"
    "filter is_response es = [] \<longrightarrow>
       next_tick s' = next_tick s1 + int (length (filter (\<lambda>te. snd te = Tick) es)) * d"
    by simp_all
  have "filter is_response (te # es) = [] \<longrightarrow>
       next_tick s' = next_tick s + int (length (filter (\<lambda>te. snd te = Tick) (te # es))) * d"
  proof
    assume "filter is_response (te # es) = []"
    then have n: "\<not> is_response (t, e)" and f: "filter is_response es = []"
      by (simp_all add: te split: if_splits)
    from ih(4) f k[OF n] show
      "next_tick s' = next_tick s + int (length (filter (\<lambda>te. snd te = Tick) (te # es))) * d"
      by (simp add: te algebra_simps)
  qed
  then show ?case using ih(1,2,3) c(2) by (simp add: te)
qed

lemma start_window:
  "0 \<le> d \<Longrightarrow> now (start tr t0 d) \<le> next_tick (start tr t0 d) \<and>
     next_tick (start tr t0 d) \<le> now (start tr t0 d) + d \<and> \<not> somethingRead (start tr t0 d)"
  by (simp add: start_def)

lemma loop_snoc_Running:
  assumes "loop step s (pre @ [te]) = (Running, s')"
  shows "fst (loop step s pre) = Running \<and> step (snd (loop step s pre)) te = (Running, s')"
proof -
  have r: "fst (loop step s pre) = Running"
    using assms by (auto simp: loop_append split: if_splits)
  obtain st s1 where st: "step (snd (loop step s pre)) te = (st, s1)"
    by (cases "step (snd (loop step s pre)) te")
  show ?thesis using assms r st by (auto simp: loop_append split: if_splits)
qed

lemma Tick_times_out:
  assumes "step = select_kingpin d \<or> step = select_flag d"
    and "afterEOFMode s" and "\<not> somethingRead s"
  shows "step s (t, Tick) =
     (Returned InactivityTimeout,
      s\<lparr>now := t, trace := trace s @ [LogPrint ''Connection timeout with no response received.'']\<rparr>)"
  using assms by auto

text \<open>
  C5. In both variants: when no response has been handled and the loop handles the end of
  input at time \<open>e\<close>, the next tick of the ticker ends the session by the inactivity
  timeout. The ticker has been running since the loop was entered at \<open>t0\<close>, so that tick
  comes at a multiple of the timeout after \<open>t0\<close>, at a time between \<open>e\<close> and \<open>e + d\<close>: within
  the timeout after the end of input, and possibly before a full timeout has passed since
  then.
\<close>

theorem eof_timeout_window:
  assumes step: "step = select_kingpin d \<or> step = select_flag d"
    and d: "0 < d"
    and timely: "timely step (start tr t0 d) (pre @ [(e, Done)])"
    and run: "loop step (start tr t0 d) (pre @ [(e, Done)]) = (Running, s)"
    and silent: "filter is_response pre = []"
  shows "e \<le> next_tick s \<and> next_tick s \<le> e + d \<and>
         next_tick s = t0 + (1 + int (length (filter (\<lambda>te. snd te = Tick) pre))) * d \<and>
         timely step (start tr t0 d) ((pre @ [(e, Done)]) @ [(next_tick s, Tick)]) \<and>
         fst (loop step (start tr t0 d) ((pre @ [(e, Done)]) @ [(next_tick s, Tick)])) =
           Returned InactivityTimeout \<and>
         now (snd (loop step (start tr t0 d) ((pre @ [(e, Done)]) @ [(next_tick s, Tick)]))) =
           next_tick s"
proof -
  have d0: "0 \<le> d" using d by simp
  from timely_window[of step d "start tr t0 d" "pre @ [(e, Done)]" s, OF step d0 timely run]
    start_window[OF d0, of tr t0] silent
  have w: "now s \<le> next_tick s" "next_tick s \<le> now s + d" "\<not> somethingRead s"
    "next_tick s =
       next_tick (start tr t0 d) + int (length (filter (\<lambda>te. snd te = Tick) pre)) * d"
    by simp_all
  have k: "next_tick s = t0 + (1 + int (length (filter (\<lambda>te. snd te = Tick) pre))) * d"
    using w(4) by (simp add: start_def algebra_simps)
  from loop_snoc_Running[OF run]
    either_clock[OF step, of "snd (loop step (start tr t0 d) pre)" e Done s]
  have last: "now s = e" "afterEOFMode s" by simp_all
  have fire: "step s (next_tick s, Tick) =
     (Returned InactivityTimeout,
      s\<lparr>now := next_tick s,
        trace := trace s @ [LogPrint ''Connection timeout with no response received.'']\<rparr>)"
    using Tick_times_out[OF step last(2) w(3)] .
  have "timely step (start tr t0 d) ((pre @ [(e, Done)]) @ [(next_tick s, Tick)])"
    using timely run w(1) fire
    by (simp only: timely_append[of step _ "pre @ [(e, Done)]"]) simp
  moreover have "loop step (start tr t0 d) ((pre @ [(e, Done)]) @ [(next_tick s, Tick)]) =
     (Returned InactivityTimeout,
      s\<lparr>now := next_tick s,
        trace := trace s @ [LogPrint ''Connection timeout with no response received.'']\<rparr>)"
    using run fire by (simp only: loop_append[of step _ "pre @ [(e, Done)]"]) simp
  ultimately show ?thesis using w(1,2) k last by simp
qed

theorem eof_timeout_window_witness:
  "timely (select_flag 200) (start [] 0 200) ([(50, Request ''a'' WriteOk)] @ [(150, Done)]) \<and>
   loop (select_flag 200) (start [] 0 200) ([(50, Request ''a'' WriteOk)] @ [(150, Done)]) =
     (Running,
      \<lparr>afterEOFMode = True, somethingRead = False, closing = True, now = 150, next_tick = 200,
       trace = [ConnWrite ''a'' WriteOk]\<rparr>) \<and>
   timely (select_flag 200) (start [] 0 200)
     (([(50, Request ''a'' WriteOk)] @ [(150, Done)]) @ [(200, Tick)]) \<and>
   fst (loop (select_flag 200) (start [] 0 200)
     (([(50, Request ''a'' WriteOk)] @ [(150, Done)]) @ [(200, Tick)])) =
     Returned InactivityTimeout \<and>
   now (snd (loop (select_flag 200) (start [] 0 200)
     (([(50, Request ''a'' WriteOk)] @ [(150, Done)]) @ [(200, Tick)]))) = 200"
proof -
  have s: "select_flag 200 = select_kingpin 200 \<or> select_flag 200 = select_flag 200" by simp
  have d: "(0::int) < 200" by simp
  have t: "timely (select_flag 200) (start [] 0 200)
      ([(50, Request ''a'' WriteOk)] @ [(150, Done)])"
    by (simp add: start_def)
  have r: "loop (select_flag 200) (start [] 0 200) ([(50, Request ''a'' WriteOk)] @ [(150, Done)]) =
     (Running,
      \<lparr>afterEOFMode = True, somethingRead = False, closing = True, now = 150, next_tick = 200,
       trace = [ConnWrite ''a'' WriteOk]\<rparr>)"
    by (simp add: start_def)
  have q: "filter is_response [(50, Request ''a'' WriteOk)] = []" by simp
  show ?thesis
    using eof_timeout_window[of "select_flag 200" 200 "[]" 0 "[(50, Request ''a'' WriteOk)]" 150,
        OF _ d t r q] t r
    by simp
qed

text \<open>
  The loop is entered at time 0 with a timeout of 200; the end of input is handled at time
  150; the tick of time 200 ends the session, 50 after the end of input.
\<close>

theorem eof_timeout_window_counterexample:
  "input_offered [ReadEOF] [(150, Done), (200, Tick)] \<and>
   timely (select_kingpin (responseTimeout tc200))
     (start [ConnWrite (handshake_kingpin (scenarioA None)) WriteOk] 0 (responseTimeout tc200))
     [(150, Done), (200, Tick)] \<and>
   fst (ProcessData_kingpin tc200 (scenarioA None) True WriteOk 0 [(150, Done), (200, Tick)]) =
     Returned InactivityTimeout \<and>
   now (snd (ProcessData_kingpin tc200 (scenarioA None) True WriteOk 0
     [(150, Done), (200, Tick)])) = 200 \<and>
   timely (select_flag (responseTimeout tc200))
     (start [ConnWrite (handshake_flag (scenarioA None)) WriteOk] 0 (responseTimeout tc200))
     [(150, Done), (200, Tick)] \<and>
   fst (ProcessData_flag tc200 (scenarioA None) True WriteOk 0 [(150, Done), (200, Tick)]) =
     Returned InactivityTimeout \<and>
   now (snd (ProcessData_flag tc200 (scenarioA None) True WriteOk 0
     [(150, Done), (200, Tick)])) = 200 \<and>
   (200::int) < 150 + responseTimeout tc200"
  by (simp add: input_offered_def defaultBufferSize_def refill_def ProcessData_kingpin_def
      ProcessData_flag_def ProcessData_def
      tc200_def Let_def start_def unwind_def)

lemma afterEOFMode_stays:
  assumes "step = select_kingpin d \<or> step = select_flag d"
    and "loop step s es = (Running, s')" and "afterEOFMode s"
  shows "afterEOFMode s'"
  using assms(2,3)
proof (induction es arbitrary: s)
  case Nil
  then show ?case by simp
next
  case (Cons te es)
  obtain t e where te: "te = (t, e)" by (cases te)
  obtain st s1 where st: "step s (t, e) = (st, s1)" by (cases "step s (t, e)")
  have l: "loop step s (te # es) = (if st = Running then loop step s1 es else (st, s1))"
    by (simp add: te st)
  from Cons.prems(1) have run: "st = Running" and l1: "loop step s1 es = (Running, s')"
    unfolding l by (simp_all split: if_splits)
  have "afterEOFMode s1"
    using either_clock[OF assms(1), of s t e s1] st run Cons.prems(2) by simp
  from Cons.IH[OF l1 this] show ?case .
qed

lemma afterEOFMode_after_Done:
  assumes step: "step = select_kingpin d \<or> step = select_flag d"
    and run: "loop step s (pre @ (e, Done) # mid) = (Running, s')"
  shows "afterEOFMode s'"
proof -
  let ?s0 = "snd (loop step s pre)"
  obtain st s1 where st: "step ?s0 (e, Done) = (st, s1)" by (cases "step ?s0 (e, Done)")
  have l0: "loop step ?s0 ((e, Done) # mid) = (if st = Running then loop step s1 mid else (st, s1))"
    by (simp add: st)
  have r: "fst (loop step s pre) = Running"
    using run unfolding loop_append[of step s pre] by (simp split: if_splits)
  have l: "loop step s (pre @ (e, Done) # mid) =
     (if st = Running then loop step s1 mid else (st, s1))"
    unfolding loop_append[of step s pre] using r l0 by simp
  from run have 1: "st = Running" and 2: "loop step s1 mid = (Running, s')"
    unfolding l by (simp_all split: if_splits)
  have "afterEOFMode s1"
    using either_clock[OF step, of ?s0 e Done s1] st 1 by simp
  then show ?thesis using afterEOFMode_stays[OF step 2] by blast
qed

text \<open>
  C3. A response that arrives at time \<open>u\<close> after the loop has handled the end of input:
  in the first variant it is written to the local output and the ticker is replaced, so
  the next tick is due at \<open>u + d\<close>, a full timeout after this arrival and not after the end
  of input; in the second variant it is not written, and \<^verbatim>\<open>ProcessData\<close> returns at once, at
  time \<open>u\<close>, by the closing flag.
\<close>

theorem inbound_after_eof:
  "(loop (select_kingpin d) (start tr t0 d) (pre @ (e, Done) # mid) = (Running, s) \<longrightarrow>
      loop (select_kingpin d) (start tr t0 d) ((pre @ (e, Done) # mid) @ [(u, Response b)]) =
        (Running,
         s\<lparr>now := u, trace := trace s @ [OutputWrite b], somethingRead := True,
           next_tick := u + d\<rparr>) \<and>
      (timely (select_kingpin d) (start tr t0 d)
         ((pre @ (e, Done) # mid) @ [(u, Response b), (v, Tick)]) \<longrightarrow> v = u + d)) \<and>
   (loop (select_flag d) (start tr t0 d) (pre @ (e, Done) # mid) = (Running, s') \<longrightarrow>
      loop (select_flag d) (start tr t0 d) ((pre @ (e, Done) # mid) @ (u, Response b) # post) =
        (Returned StoppingReads,
         s'\<lparr>now := u, trace := trace s' @ [LogPrint ''Connection closing; stopping reads.'']\<rparr>))"
proof (intro conjI impI)
  let ?S = "pre @ (e, Done) # mid"
  assume run: "loop (select_kingpin d) (start tr t0 d) ?S = (Running, s)"
  have eof: "afterEOFMode s"
    using afterEOFMode_after_Done[of "select_kingpin d" d, OF _ run] by simp
  have step: "select_kingpin d s (u, Response b) =
        (Running,
         s\<lparr>now := u, trace := trace s @ [OutputWrite b], somethingRead := True,
           next_tick := u + d\<rparr>)"
    using eof by simp
  show "loop (select_kingpin d) (start tr t0 d) (?S @ [(u, Response b)]) =
        (Running,
         s\<lparr>now := u, trace := trace s @ [OutputWrite b], somethingRead := True,
           next_tick := u + d\<rparr>)"
    unfolding loop_append[of _ _ ?S] run using step by simp
  assume "timely (select_kingpin d) (start tr t0 d) (?S @ [(u, Response b), (v, Tick)])"
  then have "timely (select_kingpin d) s [(u, Response b), (v, Tick)]"
    unfolding timely_append[of _ _ ?S] run by simp
  then show "v = u + d" using eof by simp
next
  let ?S = "pre @ (e, Done) # mid"
  assume run: "loop (select_flag d) (start tr t0 d) ?S = (Running, s')"
  have "closing s'"
    using flag_after_Done[of d "start tr t0 d" pre e mid] run by simp
  then have step: "select_flag d s' (u, Response b) =
    (Returned StoppingReads,
     s'\<lparr>now := u, trace := trace s' @ [LogPrint ''Connection closing; stopping reads.'']\<rparr>)"
    by simp
  show "loop (select_flag d) (start tr t0 d) (?S @ (u, Response b) # post) =
    (Returned StoppingReads,
     s'\<lparr>now := u, trace := trace s' @ [LogPrint ''Connection closing; stopping reads.'']\<rparr>)"
    unfolding loop_append[of _ _ ?S] run using step by simp
qed

theorem inbound_after_eof_witness:
  "loop (select_kingpin 200) (start [] 0 200) ([] @ (0, Done) # []) =
     (Running,
      \<lparr>afterEOFMode = True, somethingRead = False, closing = False, now = 0, next_tick = 200,
       trace = []\<rparr>) \<and>
   loop (select_kingpin 200) (start [] 0 200) (([] @ (0, Done) # []) @ [(100, Response ''x'')]) =
     (Running,
      \<lparr>afterEOFMode = True, somethingRead = True, closing = False, now = 100, next_tick = 300,
       trace = [OutputWrite ''x'']\<rparr>) \<and>
   timely (select_kingpin 200) (start [] 0 200)
     (([] @ (0, Done) # []) @ [(100, Response ''x''), (300, Tick)]) \<and>
   \<not> timely (select_kingpin 200) (start [] 0 200)
     (([] @ (0, Done) # []) @ [(100, Response ''x''), (200, Tick)]) \<and>
   loop (select_flag 200) (start [] 0 200) ([] @ (0, Done) # []) =
     (Running,
      \<lparr>afterEOFMode = True, somethingRead = False, closing = True, now = 0, next_tick = 200,
       trace = []\<rparr>) \<and>
   loop (select_flag 200) (start [] 0 200) (([] @ (0, Done) # []) @ (100, Response ''x'') # []) =
     (Returned StoppingReads,
      \<lparr>afterEOFMode = True, somethingRead = False, closing = True, now = 100, next_tick = 200,
       trace = [LogPrint ''Connection closing; stopping reads.'']\<rparr>)"
proof -
  have k: "loop (select_kingpin 200) (start [] 0 200) ([] @ (0, Done) # []) =
     (Running,
      \<lparr>afterEOFMode = True, somethingRead = False, closing = False, now = 0, next_tick = 200,
       trace = []\<rparr>)"
    by (simp add: start_def)
  have f: "loop (select_flag 200) (start [] 0 200) ([] @ (0, Done) # []) =
     (Running,
      \<lparr>afterEOFMode = True, somethingRead = False, closing = True, now = 0, next_tick = 200,
       trace = []\<rparr>)"
    by (simp add: start_def)
  have t: "timely (select_kingpin 200) (start [] 0 200)
     (([] @ (0, Done) # []) @ [(100, Response ''x''), (300, Tick)])"
    by (simp add: start_def)
  have n: "\<not> timely (select_kingpin 200) (start [] 0 200)
     (([] @ (0, Done) # []) @ [(100, Response ''x''), (200, Tick)])"
    by (simp add: start_def)
  show ?thesis
    using k f t n
      inbound_after_eof[where d = 200 and tr = "[]" and ?t0.0 = 0 and pre = "[]" and e = 0
        and mid = "[]" and u = 100 and b = "''x''" and v = 300 and post = "[]"
        and s = "\<lparr>afterEOFMode = True, somethingRead = False, closing = False, now = 0,
                  next_tick = 200, trace = []\<rparr>"
        and s' = "\<lparr>afterEOFMode = True, somethingRead = False, closing = True, now = 0,
                   next_tick = 200, trace = []\<rparr>"]
    by simp
qed

text \<open>
  Scenario D of the specification (timeout 200, end of input at 0, one response at 100):
  the first variant is still running after the tick of time 300; the second has returned
  at time 100, by the closing flag and with nothing written to the local output.
\<close>

theorem inbound_after_eof_counterexample:
  "timely (select_kingpin (responseTimeout tc200))
     (start [ConnWrite (handshake_kingpin (scenarioA None)) WriteOk] 0 (responseTimeout tc200))
     [(0, Done), (100, Response ''x''), (300, Tick)] \<and>
   fst (ProcessData_kingpin tc200 (scenarioA None) True WriteOk 0
     [(0, Done), (100, Response ''x''), (300, Tick)]) = Running \<and>
   timely (select_flag (responseTimeout tc200))
     (start [ConnWrite (handshake_flag (scenarioA None)) WriteOk] 0 (responseTimeout tc200))
     [(0, Done), (100, Response ''x'')] \<and>
   fst (ProcessData_flag tc200 (scenarioA None) True WriteOk 0
     [(0, Done), (100, Response ''x'')]) = Returned StoppingReads \<and>
   now (snd (ProcessData_flag tc200 (scenarioA None) True WriteOk 0
     [(0, Done), (100, Response ''x'')])) = 100 \<and>
   printed (trace (snd (ProcessData_flag tc200 (scenarioA None) True WriteOk 0
     [(0, Done), (100, Response ''x'')]))) = []"
  by (simp add: ProcessData_kingpin_def ProcessData_flag_def ProcessData_def
      tc200_def Let_def start_def unwind_def printed_def)

text \<open>
  In the first variant \<open>somethingRead\<close> is set by every response and never reset: once a
  response has been handled, no tick ends the loop.
\<close>

lemma kingpin_ticks_after_response:
  assumes "somethingRead s"
  shows "fst (loop (select_kingpin d) s (map (\<lambda>t. (t, Tick)) ts)) = Running"
  using assms
proof (induction ts arbitrary: s)
  case Nil
  show ?case by simp
next
  case (Cons t ts)
  have "somethingRead (s\<lparr>now := t, next_tick := next_tick s + d\<rparr>)" using Cons.prems by simp
  from Cons.IH[OF this] show ?case using Cons.prems by simp
qed

end
